theory Spec2Isabelle
  imports
    Main
    "HOL-Library.AList"
    "HOL-Library.Char_ord"
    "HOL-Library.List_Lexorder"
    "HOL-Library.Sublist"
begin

section \<open>The chat application: data model\<close>

text \<open>
  The program keeps three module-level dictionaries: \<open>users\<close>, \<open>conversations\<close> and
  \<open>user_seen\<close>. A Python dictionary keeps its keys in insertion order, and the dashboard
  iterates over two of them, so each dictionary is an association list: a lookup is
  \<^const>\<open>map_of\<close>, an item assignment \<open>d[k] = v\<close> is \<^const>\<open>AList.update\<close> (the value
  is replaced in place when the key is there, and the pair is added at the end otherwise).
  Python's \<open>str\<close> is \<^typ>\<open>string\<close>, compared lexicographically, and its \<open>int\<close> is
  \<^typ>\<open>int\<close>.
\<close>

type_synonym ('k, 'v) dict = "('k \<times> 'v) list"

type_synonym conv_key = "string \<times> string"

record user_rec =
  display_name :: string
  language :: string

record entry =
  sender :: string
  recipient :: string
  original_text :: string
  translated_text :: string

type_synonym seen_dict = "(conv_key, int) dict"

record state =
  users :: "(string, user_rec) dict"
  conversations :: "(conv_key, entry list) dict"
  user_seen :: "(string, seen_dict) dict"

datatype py_error = KeyError string | IndexError | ProviderError string

text \<open>\<open>d.get(k, dflt)\<close>\<close>

definition dict_get :: "('k, 'v) dict \<Rightarrow> 'k \<Rightarrow> 'v \<Rightarrow> 'v" where
  "dict_get d k dflt = (case map_of d k of None \<Rightarrow> dflt | Some v \<Rightarrow> v)"

text \<open>\<open>d[k]\<close>, which raises \<open>KeyError\<close> on a missing key.\<close>

definition dict_item :: "(string, 'v) dict \<Rightarrow> string \<Rightarrow> py_error + 'v" where
  "dict_item d k = (case map_of d k of None \<Rightarrow> Inl (KeyError k) | Some v \<Rightarrow> Inr v)"

text \<open>\<open>k in d\<close>\<close>

definition dict_mem :: "'k \<Rightarrow> ('k, 'v) dict \<Rightarrow> bool" where
  "dict_mem k d = (map_of d k \<noteq> None)"

section \<open>Strings\<close>

text \<open>
  \<open>str.strip()\<close> and \<open>str.lower()\<close> on the ASCII range: the white space of \<open>str.isspace\<close>
  below code point 128 and the letters \<open>A\<close> to \<open>Z\<close>. No theorem below depends on which
  characters count as white space or as upper case.
\<close>

definition is_space :: "char \<Rightarrow> bool" where
  "is_space c = (let n = (of_char c :: nat) in (9 \<le> n \<and> n \<le> 13) \<or> (28 \<le> n \<and> n \<le> 32))"

definition strip :: "string \<Rightarrow> string" where
  "strip s = rev (dropWhile is_space (rev (dropWhile is_space s)))"

definition lower_char :: "char \<Rightarrow> char" where
  "lower_char c =
     (let n = (of_char c :: nat) in if 65 \<le> n \<and> n \<le> 90 then char_of (n + 32) else c)"

definition lower :: "string \<Rightarrow> string" where
  "lower s = map lower_char s"

section \<open>Conversation keys, seen marks and the message log\<close>

text \<open>\<open>tuple(sorted((user_a, user_b)))\<close>: the sort is stable, so equal ids keep their order.\<close>

definition conversation_key :: "string \<Rightarrow> string \<Rightarrow> conv_key" where
  "conversation_key user_a user_b =
     (if user_b < user_a then (user_b, user_a) else (user_a, user_b))"

text \<open>\<open>conversations.get(key, [])\<close>\<close>

definition conv_get :: "state \<Rightarrow> conv_key \<Rightarrow> entry list" where
  "conv_get s key = dict_get (conversations s) key []"

text \<open>
  \<open>user_seen.setdefault(username, {})\<close> returns the stored dictionary; when there is none
  it stores a new empty one first, so the call can change \<open>user_seen\<close>.
\<close>

definition ensure_user_seen :: "state \<Rightarrow> string \<Rightarrow> seen_dict \<times> state" where
  "ensure_user_seen s username =
     (case map_of (user_seen s) username of
        Some d \<Rightarrow> (d, s)
      | None \<Rightarrow> ([], s\<lparr>user_seen := user_seen s @ [(username, [])]\<rparr>))"

text \<open>
  \<open>ensure_user_seen(username)[key] = n\<close>: the dictionary that \<open>setdefault\<close> returns is the
  one stored in \<open>user_seen\<close>, so the assignment is seen through \<open>user_seen\<close>.
\<close>

definition assign_seen :: "state \<Rightarrow> string \<Rightarrow> conv_key \<Rightarrow> int \<Rightarrow> state" where
  "assign_seen s username key n =
     (let (d, s1) = ensure_user_seen s username
      in s1\<lparr>user_seen := AList.update username (AList.update key n d) (user_seen s1)\<rparr>)"

definition mark_conversation_seen :: "state \<Rightarrow> string \<Rightarrow> string \<Rightarrow> state" where
  "mark_conversation_seen s viewer partner_key =
     (let key = conversation_key viewer partner_key
      in assign_seen s viewer key (int (length (conv_get s key))))"

definition unread_count :: "state \<Rightarrow> string \<Rightarrow> string \<Rightarrow> int \<times> state" where
  "unread_count s username partner_key =
     (let key = conversation_key username partner_key;
          total = int (length (conv_get s key));
          (d, s1) = ensure_user_seen s username;
          seen = dict_get d key 0
      in (max (total - seen) 0, s1))"

definition save_message :: "state \<Rightarrow> string \<Rightarrow> string \<Rightarrow> string \<Rightarrow> string \<Rightarrow> entry \<times> state" where
  "save_message s sender' recipient' original_text' translated_text' =
     (let key = conversation_key sender' recipient';
          entry = \<lparr>sender = sender', recipient = recipient',
                   original_text = original_text', translated_text = translated_text'\<rparr>;
          bucket = conv_get s key @ [entry];
          s1 = s\<lparr>conversations := AList.update key bucket (conversations s)\<rparr>
      in (entry, assign_seen s1 sender' key (int (length bucket))))"

text \<open>
  The seen mark of a viewer for a key as the program reads it: \<open>user_seen[viewer]\<close> when
  present, then \<open>.get(key, 0)\<close>. Used to state the properties; it changes nothing.
\<close>

definition seen_mark :: "state \<Rightarrow> string \<Rightarrow> conv_key \<Rightarrow> int" where
  "seen_mark s viewer key = dict_get (dict_get (user_seen s) viewer []) key 0"

section \<open>The translation provider\<close>

text \<open>
  \<open>client.models.generate_content\<close> is the external provider: given the message and the
  target language (which the system instruction carries) it raises, or it returns a
  response whose \<open>text\<close> is \<open>None\<close> or a string. \<open>translate_message\<close> lets the exception
  pass, and falls back to the message when \<open>response.text\<close> is falsy (\<open>None\<close> or empty).
\<close>

type_synonym provider = "string \<Rightarrow> string \<Rightarrow> py_error + string option"

definition translate_message :: "provider \<Rightarrow> string \<Rightarrow> string \<Rightarrow> py_error + string" where
  "translate_message generate_content message_text target_language =
     (case generate_content message_text target_language of
        Inl exc \<Rightarrow> Inl exc
      | Inr response_text \<Rightarrow>
          (case response_text of
             None \<Rightarrow> Inr message_text
           | Some t \<Rightarrow> if t = [] then Inr message_text else Inr (strip t)))"

section \<open>The projection of a conversation for a viewer\<close>

record view_entry =
  is_self :: bool
  sender_label :: string
  primary_text :: string
  secondary_label :: string
  secondary_text :: string
  created_by :: string

text \<open>
  The body of the loop of \<open>serialize_messages\<close>. For a message of the other party the
  source reads \<open>users[entry['sender']]\<close> for the label and again for the name; \<open>users\<close>
  does not change in between, so the model reads it once. A missing sender raises
  \<open>KeyError\<close>.
\<close>

definition project_entry ::
  "(string, user_rec) dict \<Rightarrow> string \<Rightarrow> user_rec \<Rightarrow> entry \<Rightarrow> py_error + view_entry" where
  "project_entry us viewer partner_data e =
     (if sender e = viewer then
        Inr \<lparr>is_self = True, sender_label = ''You'',
             primary_text = original_text e,
             secondary_label =
               ''Translated for '' @ display_name partner_data @ '' ('' @
               language partner_data @ ''):'',
             secondary_text = translated_text e,
             created_by = sender e\<rparr>
      else
        (case dict_item us (sender e) of
           Inl exc \<Rightarrow> Inl exc
         | Inr sender_data \<Rightarrow>
             Inr \<lparr>is_self = False, sender_label = display_name sender_data,
                  primary_text =
                    (if translated_text e \<noteq> [] then translated_text e else original_text e),
                  secondary_label = ''Original message in '' @ language sender_data @ '':'',
                  secondary_text = original_text e,
                  created_by = sender e\<rparr>))"

fun serialize_loop ::
  "(string, user_rec) dict \<Rightarrow> string \<Rightarrow> user_rec \<Rightarrow> entry list \<Rightarrow> view_entry list \<Rightarrow>
     py_error + view_entry list" where
  "serialize_loop us viewer partner_data [] messages_for_view = Inr messages_for_view"
| "serialize_loop us viewer partner_data (e # raw_messages) messages_for_view =
     (case project_entry us viewer partner_data e of
        Inl exc \<Rightarrow> Inl exc
      | Inr v \<Rightarrow> serialize_loop us viewer partner_data raw_messages (messages_for_view @ [v]))"

text \<open>
  An exception leaves the function before \<open>mark_conversation_seen\<close> runs, so a failed call
  has changed nothing: \<open>Inl\<close> carries no state.
\<close>

definition serialize_messages ::
  "state \<Rightarrow> string \<Rightarrow> string \<Rightarrow> bool \<Rightarrow> py_error + (view_entry list \<times> state)" where
  "serialize_messages s viewer partner_key mark_seen =
     (let key = conversation_key viewer partner_key;
          raw_messages = conv_get s key
      in case dict_item (users s) partner_key of
           Inl exc \<Rightarrow> Inl exc
         | Inr partner_data \<Rightarrow>
             (case serialize_loop (users s) viewer partner_data raw_messages [] of
                Inl exc \<Rightarrow> Inl exc
              | Inr messages_for_view \<Rightarrow>
                  Inr (messages_for_view,
                       if mark_seen then mark_conversation_seen s viewer partner_key else s)))"

section \<open>The dashboard\<close>

record contact =
  username :: string
  contact_display_name :: string
  contact_language :: string
  contact_unread_count :: int

record dashboard_payload =
  matches :: "contact list"
  recent_contacts :: "contact list"

text \<open>
  The first loop, over \<open>users.items()\<close>. \<open>unread_count\<close> goes through
  \<open>ensure_user_seen\<close>, so the state is threaded through the loop.
\<close>

fun matches_loop ::
  "state \<Rightarrow> string \<Rightarrow> string \<Rightarrow> (string \<times> user_rec) list \<Rightarrow> contact list \<Rightarrow>
     contact list \<times> state" where
  "matches_loop s user query_lower [] acc = (acc, s)"
| "matches_loop s user query_lower ((name, data) # rest) acc =
     (if name = user then matches_loop s user query_lower rest acc
      else if query_lower = [] \<or> sublist query_lower (lower (display_name data)) then
        (case unread_count s user name of
           (n, s1) \<Rightarrow>
             matches_loop s1 user query_lower rest
               (acc @ [\<lparr>username = name, contact_display_name = display_name data,
                         contact_language = language data, contact_unread_count = n\<rparr>]))
      else matches_loop s user query_lower rest acc)"

text \<open>
  The second loop, over \<open>conversations.keys()\<close>. \<open>other in users\<close> and the read
  \<open>users[other]\<close> that it guards are one lookup here.
\<close>

fun recent_loop ::
  "state \<Rightarrow> string \<Rightarrow> conv_key list \<Rightarrow> string list \<Rightarrow> contact list \<Rightarrow>
     contact list \<times> state" where
  "recent_loop s user [] seen_partners acc = (acc, s)"
| "recent_loop s user (key # rest) seen_partners acc =
     (if user = fst key \<or> user = snd key then
        (let other = (if fst key \<noteq> user then fst key else snd key)
         in case map_of (users s) other of
              None \<Rightarrow> recent_loop s user rest seen_partners acc
            | Some data \<Rightarrow>
                if other \<in> set seen_partners then recent_loop s user rest seen_partners acc
                else
                  (case unread_count s user other of
                     (n, s1) \<Rightarrow>
                       recent_loop s1 user rest (seen_partners @ [other])
                         (acc @ [\<lparr>username = other, contact_display_name = display_name data,
                                   contact_language = language data,
                                   contact_unread_count = n\<rparr>])))
      else recent_loop s user rest seen_partners acc)"

text \<open>\<open>list.sort(key=...)\<close> is stable, as \<^const>\<open>sort_key\<close> is.\<close>

definition build_dashboard_payload :: "state \<Rightarrow> string \<Rightarrow> string \<Rightarrow> dashboard_payload \<times> state" where
  "build_dashboard_payload s user query =
     (let query_lower = lower (strip query)
      in case matches_loop s user query_lower (users s) [] of
           (ms, s1) \<Rightarrow>
             (case recent_loop s1 user (map fst (conversations s1)) [] [] of
                (rs, s2) \<Rightarrow>
                  (\<lparr>matches = sort_key (\<lambda>item. lower (contact_display_name item)) ms,
                    recent_contacts = sort_key (\<lambda>item. lower (contact_display_name item)) rs\<rparr>,
                   s2)))"

section \<open>The request handlers\<close>

text \<open>
  A handler takes the state, the \<open>username\<close> stored in the caller's session (if any) and
  the request's data, and returns its response and the state it leaves. An exception that
  no handler catches ends the request with \<open>Server_error\<close>.
\<close>

datatype 'a response =
  Page 'a | Json 'a | Json_error nat string | Redirect string | Server_error py_error

text \<open>\<open>str(exc)\<close>\<close>

fun str_of_error :: "py_error \<Rightarrow> string" where
  "str_of_error (KeyError k) = [CHR 0x27] @ k @ [CHR 0x27]"
| "str_of_error IndexError = ''list index out of range''"
| "str_of_error (ProviderError msg) = msg"

definition current_user :: "state \<Rightarrow> string option \<Rightarrow> string option" where
  "current_user s session_username =
     (case session_username of
        None \<Rightarrow> None
      | Some name \<Rightarrow> if name \<noteq> [] \<and> dict_mem name (users s) then Some name else None)"

text \<open>
  \<open>login\<close>: \<open>form\<close> is \<open>None\<close> for a GET and the fields \<open>username\<close> and \<open>language\<close> for a
  POST. The second component of the result is the session's \<open>username\<close> afterwards.
\<close>

definition login ::
  "state \<Rightarrow> string option \<Rightarrow> (string \<times> string) option \<Rightarrow>
     (string option response \<times> string option) \<times> state" where
  "login s session_username form =
     (case current_user s session_username of
        Some user \<Rightarrow> ((Redirect ''dashboard'', session_username), s)
      | None \<Rightarrow>
          (case form of
             None \<Rightarrow> ((Page None, None), s)
           | Some (username_field, language_field) \<Rightarrow>
               (let username_value = strip username_field;
                    language_value = strip language_field
                in if username_value = [] then
                     ((Page (Some ''Please enter a username.''), None), s)
                   else
                     (let username_key = lower username_value
                      in case map_of (users s) username_key of
                           Some existing \<Rightarrow>
                             (let named = existing\<lparr>display_name := username_value\<rparr>;
                                  updated =
                                    (if language_value \<noteq> []
                                     then named\<lparr>language := language_value\<rparr> else named);
                                  s1 = s\<lparr>users := AList.update username_key updated (users s)\<rparr>
                              in ((Redirect ''dashboard'', Some username_key),
                                  snd (ensure_user_seen s1 username_key)))
                         | None \<Rightarrow>
                             if language_value = [] then
                               ((Page (Some ''Pick a preferred language for your first login.''),
                                 None), s)
                             else
                               (let s1 = s\<lparr>users :=
                                       AList.update username_key
                                         \<lparr>display_name = username_value,
                                          language = language_value\<rparr> (users s)\<rparr>
                                in ((Redirect ''dashboard'', Some username_key),
                                    snd (ensure_user_seen s1 username_key)))))))"

definition dashboard ::
  "state \<Rightarrow> string option \<Rightarrow> string \<Rightarrow> dashboard_payload response \<times> state" where
  "dashboard s session_username query =
     (case current_user s session_username of
        None \<Rightarrow> (Redirect ''login'', s)
      | Some user \<Rightarrow>
          (case build_dashboard_payload s user query of (data, s1) \<Rightarrow> (Page data, s1)))"

definition dashboard_data ::
  "state \<Rightarrow> string option \<Rightarrow> string \<Rightarrow> dashboard_payload response \<times> state" where
  "dashboard_data s session_username query =
     (case current_user s session_username of
        None \<Rightarrow> (Json_error 401 ''Not authenticated'', s)
      | Some user \<Rightarrow>
          (case build_dashboard_payload s user query of (data, s1) \<Rightarrow> (Json data, s1)))"

definition chat ::
  "state \<Rightarrow> string option \<Rightarrow> string \<Rightarrow> view_entry list response \<times> state" where
  "chat s session_username partner =
     (case current_user s session_username of
        None \<Rightarrow> (Redirect ''login'', s)
      | Some user \<Rightarrow>
          (let partner_key = lower partner
           in if \<not> dict_mem partner_key (users s) \<or> partner_key = user then
                (Redirect ''dashboard'', s)
              else
                (case serialize_messages s user partner_key True of
                   Inl exc \<Rightarrow> (Server_error exc, s)
                 | Inr (messages_for_view, s1) \<Rightarrow> (Page messages_for_view, s1))))"

definition chat_messages ::
  "state \<Rightarrow> string option \<Rightarrow> string \<Rightarrow> view_entry list response \<times> state" where
  "chat_messages s session_username partner =
     (case current_user s session_username of
        None \<Rightarrow> (Json_error 401 ''Not authenticated'', s)
      | Some user \<Rightarrow>
          (let partner_key = lower partner
           in if \<not> dict_mem partner_key (users s) \<or> partner_key = user then
                (Json_error 400 ''Invalid conversation'', s)
              else
                (case serialize_messages s user partner_key True of
                   Inl exc \<Rightarrow> (Server_error exc, s)
                 | Inr (messages_for_view, s1) \<Rightarrow> (Json messages_for_view, s1))))"

text \<open>The answer of the \<open>except\<close> branch of \<open>send_message\<close>.\<close>

definition translate_failed :: "py_error \<Rightarrow> view_entry response" where
  "translate_failed exc =
     Json_error 500 (''Could not translate your message: '' @ str_of_error exc)"

text \<open>
  \<open>send_message\<close>: \<open>message\<close> is \<open>data.get("message")\<close>, a string or \<open>None\<close>. Everything
  from the provider call to the projection of the new message is inside the \<open>try\<close>; the
  handler catches every exception there and answers 500, keeping whatever state the
  \<open>try\<close> block had reached.
\<close>

definition send_message ::
  "state \<Rightarrow> provider \<Rightarrow> string option \<Rightarrow> string \<Rightarrow> string option \<Rightarrow>
     view_entry response \<times> state" where
  "send_message s generate_content session_username partner message =
     (case current_user s session_username of
        None \<Rightarrow> (Json_error 401 ''Not authenticated'', s)
      | Some user \<Rightarrow>
          (let partner_key = lower partner
           in if \<not> dict_mem partner_key (users s) \<or> partner_key = user then
                (Json_error 400 ''Invalid conversation'', s)
              else
                (let message_text = strip (case message of None \<Rightarrow> [] | Some m \<Rightarrow> m)
                 in if message_text = [] then
                      (Json_error 400 ''Type a message before sending.'', s)
                    else
                      (case dict_item (users s) partner_key of
                         Inl exc \<Rightarrow> (translate_failed exc, s)
                       | Inr partner_data \<Rightarrow>
                           (case translate_message generate_content message_text
                                   (language partner_data) of
                              Inl exc \<Rightarrow> (translate_failed exc, s)
                            | Inr translated \<Rightarrow>
                                (case save_message s user partner_key message_text
                                        translated of
                                   (e, s1) \<Rightarrow>
                                     (case serialize_messages s1 user partner_key False of
                                        Inl exc \<Rightarrow> (translate_failed exc, s1)
                                      | Inr (messages_for_view, s2) \<Rightarrow>
                                          if messages_for_view = [] then
                                            (translate_failed IndexError, s2)
                                          else (Json (last messages_for_view), s2))))))))"

text \<open>\<open>settings\<close>: \<open>form\<close> is \<open>None\<close> for a GET and the field \<open>language\<close> for a POST.\<close>

definition settings ::
  "state \<Rightarrow> string option \<Rightarrow> string option \<Rightarrow>
     (string option \<times> string option) response \<times> state" where
  "settings s session_username form =
     (case current_user s session_username of
        None \<Rightarrow> (Redirect ''login'', s)
      | Some user \<Rightarrow>
          (case form of
             None \<Rightarrow> (Page (None, None), s)
           | Some language_field \<Rightarrow>
               (let new_language = strip language_field
                in if new_language = [] then
                     (Page (Some ''Please enter a language before saving.'', None), s)
                   else
                     (case dict_item (users s) user of
                        Inl exc \<Rightarrow> (Server_error exc, s)
                      | Inr existing \<Rightarrow>
                          (Page (None, Some ''Language updated.''),
                           s\<lparr>users :=
                               AList.update user (existing\<lparr>language := new_language\<rparr>)
                                 (users s)\<rparr>)))))"

section \<open>Reachable states\<close>

text \<open>
  The server starts with three empty dictionaries. A step is one call of a handler or of
  one of the functions that touch the dictionaries, with any arguments: the states the
  handlers reach are among the states these steps reach.
\<close>

definition init :: state where
  "init = \<lparr>users = [], conversations = [], user_seen = []\<rparr>"

inductive step :: "state \<Rightarrow> state \<Rightarrow> bool" where
  step_ensure: "step s (snd (ensure_user_seen s name))"
| step_mark: "step s (mark_conversation_seen s viewer partner_key)"
| step_unread: "step s (snd (unread_count s name partner_key))"
| step_save: "step s (snd (save_message s a b original translated))"
| step_serialize:
    "serialize_messages s viewer partner_key mark_seen = Inr (vs, s') \<Longrightarrow> step s s'"
| step_payload: "step s (snd (build_dashboard_payload s user query))"
| step_login: "step s (snd (login s session_username login_form))"
| step_dashboard: "step s (snd (dashboard s session_username query))"
| step_dashboard_data: "step s (snd (dashboard_data s session_username query))"
| step_chat: "step s (snd (chat s session_username partner))"
| step_chat_messages: "step s (snd (chat_messages s session_username partner))"
| step_send: "step s (snd (send_message s generate_content session_username partner message))"
| step_settings: "step s (snd (settings s session_username settings_form))"

inductive reachable :: "state \<Rightarrow> bool" where
  reachable_init: "reachable init"
| reachable_step: "reachable s \<Longrightarrow> step s s' \<Longrightarrow> reachable s'"

text \<open>The invariant of the seen marks: every mark is between 0 and the length of its log.\<close>

definition seen_inv :: "state \<Rightarrow> bool" where
  "seen_inv s = (\<forall>viewer key. 0 \<le> seen_mark s viewer key \<and> seen_mark s viewer key \<le> int (length (conv_get s key)))"

text \<open>
  What one step may do to the logs and the marks: no log gets shorter, and a mark either
  keeps its value or becomes the length of its log.
\<close>

definition advances :: "state \<Rightarrow> state \<Rightarrow> bool" where
  "advances s s' =
     (\<forall>v k. length (conv_get s k) \<le> length (conv_get s' k) \<and>
        (seen_mark s' v k = seen_mark s v k \<or> seen_mark s' v k = int (length (conv_get s' k))))"

section \<open>A concrete run\<close>

text \<open>
  Alice (English) and Bob (French) have logged in, and Alice has sent ``Hello'', which the
  provider translated to ``Bonjour''. The theorems below are instantiated on this state.
\<close>

definition hello :: entry where
  "hello = \<lparr>sender = ''alice'', recipient = ''bob'',
            original_text = ''Hello'', translated_text = ''Bonjour''\<rparr>"

definition two_users :: "(string, user_rec) dict" where
  "two_users =
     [(''alice'', \<lparr>display_name = ''Alice'', language = ''English''\<rparr>),
      (''bob'', \<lparr>display_name = ''Bob'', language = ''French''\<rparr>)]"

definition logged_in :: state where
  "logged_in = \<lparr>users = two_users, conversations = [],
                 user_seen = [(''alice'', []), (''bob'', [])]\<rparr>"

definition after_hello :: state where
  "after_hello =
     \<lparr>users = two_users,
      conversations = [((''alice'', ''bob''), [hello])],
      user_seen = [(''alice'', [((''alice'', ''bob''), 1)]), (''bob'', [])]\<rparr>"

definition failing_provider :: provider where
  "failing_provider message_text target_language = Inl (ProviderError ''timeout'')"

definition empty_provider :: provider where
  "empty_provider message_text target_language = Inr (Some [])"

definition french_provider :: provider where
  "french_provider message_text target_language = Inr (Some ''Bonjour'')"

text \<open>What Bob is shown when he opens the conversation, and the state that leaves.\<close>

definition hello_for_bob :: view_entry where
  "hello_for_bob =
     \<lparr>is_self = False, sender_label = ''Alice'', primary_text = ''Bonjour'',
      secondary_label = ''Original message in English:'', secondary_text = ''Hello'',
      created_by = ''alice''\<rparr>"

definition after_bob_read :: state where
  "after_bob_read =
     \<lparr>users = two_users,
      conversations = [((''alice'', ''bob''), [hello])],
      user_seen = [(''alice'', [((''alice'', ''bob''), 1)]),
                   (''bob'', [((''alice'', ''bob''), 1)])]\<rparr>"

section \<open>Effects of the operations on the dictionaries\<close>

lemma conversation_key_commute: "conversation_key a b = conversation_key b a"
  by (auto simp: conversation_key_def)

lemma dict_get_update:
  "dict_get (AList.update k v d) k' dflt = (if k' = k then v else dict_get d k' dflt)"
  by (simp add: dict_get_def update_conv')

lemma dict_get_append_default:
  "dict_get (d @ [(k, dflt)]) k' dflt = dict_get d k' dflt"
  by (auto simp: dict_get_def map_add_def split: option.splits)

lemma ensure_user_seen_fst: "fst (ensure_user_seen s name) = dict_get (user_seen s) name []"
  by (simp add: ensure_user_seen_def dict_get_def split: option.splits)

lemma ensure_user_seen_users [simp]: "users (snd (ensure_user_seen s name)) = users s"
  by (simp add: ensure_user_seen_def split: option.splits)

lemma ensure_user_seen_conversations [simp]:
  "conversations (snd (ensure_user_seen s name)) = conversations s"
  by (simp add: ensure_user_seen_def split: option.splits)

lemma ensure_user_seen_dict:
  "dict_get (user_seen (snd (ensure_user_seen s name))) viewer [] = dict_get (user_seen s) viewer []"
  by (simp add: ensure_user_seen_def dict_get_append_default split: option.splits)

lemma ensure_user_seen_mark [simp]:
  "seen_mark (snd (ensure_user_seen s name)) viewer key = seen_mark s viewer key"
  by (simp add: seen_mark_def ensure_user_seen_dict)

lemma ensure_user_seen_conv_get [simp]: "conv_get (snd (ensure_user_seen s name)) key = conv_get s key"
  by (simp add: conv_get_def)

lemma ensure_user_seen_present:
  "map_of (user_seen s) name = Some d \<Longrightarrow> ensure_user_seen s name = (d, s)"
  by (simp add: ensure_user_seen_def)

lemma assign_seen_users [simp]: "users (assign_seen s name key n) = users s"
  by (simp add: assign_seen_def split: prod.splits) (metis ensure_user_seen_users snd_conv)

lemma assign_seen_conversations [simp]: "conversations (assign_seen s name key n) = conversations s"
  by (simp add: assign_seen_def split: prod.splits) (metis ensure_user_seen_conversations snd_conv)

lemma assign_seen_conv_get [simp]: "conv_get (assign_seen s name key n) k = conv_get s k"
  by (simp add: conv_get_def)

lemma assign_seen_mark:
  "seen_mark (assign_seen s name key n) viewer k =
     (if viewer = name \<and> k = key then n else seen_mark s viewer k)"
proof -
  obtain d s1 where e: "ensure_user_seen s name = (d, s1)" by (cases "ensure_user_seen s name")
  have d: "d = dict_get (user_seen s) name []" using e ensure_user_seen_fst [of s name] by simp
  have s1: "dict_get (user_seen s1) viewer [] = dict_get (user_seen s) viewer []"
    using e ensure_user_seen_dict [of s name viewer] by simp
  show ?thesis
    by (simp add: assign_seen_def e seen_mark_def dict_get_update s1 d)
qed


lemma update_update_same: "AList.update k v (AList.update k v' d) = AList.update k v d"
  by (induction d) auto

lemma map_of_ensure_user_seen:
  "map_of (user_seen (snd (ensure_user_seen s name))) name = Some (fst (ensure_user_seen s name))"
  by (simp add: ensure_user_seen_def map_add_def split: option.splits)

lemma assign_seen_idem:
  "assign_seen (assign_seen s name key n) name key n = assign_seen s name key n"
proof -
  obtain d s1 where e: "ensure_user_seen s name = (d, s1)" by (cases "ensure_user_seen s name")
  let ?t = "s1\<lparr>user_seen := AList.update name (AList.update key n d) (user_seen s1)\<rparr>"
  have a: "assign_seen s name key n = ?t" by (simp add: assign_seen_def e)
  have "map_of (user_seen ?t) name = Some (AList.update key n d)"
    by (simp add: update_conv')
  then have e2: "ensure_user_seen ?t name = (AList.update key n d, ?t)"
    by (rule ensure_user_seen_present)
  show ?thesis
    unfolding a by (simp add: assign_seen_def e2 update_update_same)
qed

lemma conv_get_mark [simp]: "conv_get (mark_conversation_seen s viewer partner_key) key = conv_get s key"
  by (simp add: mark_conversation_seen_def Let_def)

lemma users_mark [simp]: "users (mark_conversation_seen s viewer partner_key) = users s"
  by (simp add: mark_conversation_seen_def Let_def)

lemma conversations_mark [simp]:
  "conversations (mark_conversation_seen s viewer partner_key) = conversations s"
  by (simp add: mark_conversation_seen_def Let_def)

lemma seen_mark_mark:
  "seen_mark (mark_conversation_seen s viewer partner_key) v k =
     (if v = viewer \<and> k = conversation_key viewer partner_key
      then int (length (conv_get s k)) else seen_mark s v k)"
  by (simp add: mark_conversation_seen_def Let_def assign_seen_mark)

lemma unread_count_fst:
  "fst (unread_count s name partner_key) =
     max (int (length (conv_get s (conversation_key name partner_key)))
          - seen_mark s name (conversation_key name partner_key)) 0"
proof -
  obtain d s1 where e: "ensure_user_seen s name = (d, s1)" by (cases "ensure_user_seen s name")
  have d: "d = dict_get (user_seen s) name []" using e ensure_user_seen_fst [of s name] by simp
  show ?thesis by (simp add: unread_count_def Let_def e d seen_mark_def)
qed

lemma unread_count_snd: "snd (unread_count s name partner_key) = snd (ensure_user_seen s name)"
  by (simp add: unread_count_def Let_def split: prod.splits)

lemma save_message_fst:
  "fst (save_message s a b original translated) =
     \<lparr>sender = a, recipient = b, original_text = original, translated_text = translated\<rparr>"
  by (simp add: save_message_def Let_def)

lemma users_save [simp]: "users (snd (save_message s a b original translated)) = users s"
  by (simp add: save_message_def Let_def)

lemma conv_get_save:
  "conv_get (snd (save_message s a b original translated)) key =
     (if key = conversation_key a b
      then conv_get s key @ [fst (save_message s a b original translated)] else conv_get s key)"
  by (simp add: save_message_def Let_def conv_get_def dict_get_update)

lemma seen_mark_save:
  "seen_mark (snd (save_message s a b original translated)) v k =
     (if v = a \<and> k = conversation_key a b
      then int (length (conv_get s k)) + 1 else seen_mark s v k)"
proof -
  let ?s1 = "s\<lparr>conversations := AList.update (conversation_key a b)
       (conv_get s (conversation_key a b) @
        [\<lparr>sender = a, recipient = b, original_text = original, translated_text = translated\<rparr>])
       (conversations s)\<rparr>"
  have "seen_mark ?s1 v k = seen_mark s v k" by (simp add: seen_mark_def)
  then show ?thesis by (simp add: save_message_def Let_def assign_seen_mark)
qed


lemma users_unread [simp]: "users (snd (unread_count s name partner_key)) = users s"
  by (simp add: unread_count_snd)

lemma conversations_unread [simp]:
  "conversations (snd (unread_count s name partner_key)) = conversations s"
  by (simp add: unread_count_snd)

lemma seen_mark_unread [simp]:
  "seen_mark (snd (unread_count s name partner_key)) viewer key = seen_mark s viewer key"
  by (simp add: unread_count_snd)

lemma matches_loop_frame:
  "users (snd (matches_loop s user q us acc)) = users s \<and>
   conversations (snd (matches_loop s user q us acc)) = conversations s \<and>
   seen_mark (snd (matches_loop s user q us acc)) viewer key = seen_mark s viewer key"
proof (induction us arbitrary: s acc)
  case Nil
  show ?case by simp
next
  case (Cons p us)
  obtain name data where p: "p = (name, data)" by (cases p)
  obtain n s1 where u: "unread_count s user name = (n, s1)" by (cases "unread_count s user name")
  have s1: "s1 = snd (unread_count s user name)" using u by simp
  have f: "users s1 = users s" "conversations s1 = conversations s"
    "seen_mark s1 viewer key = seen_mark s viewer key"
    unfolding s1 by simp_all
  show ?case
    unfolding p using Cons.IH [of s] Cons.IH [of s1] f by (simp add: u)
qed

lemma unread_count_state:
  "unread_count s name partner_key = (n, s1) \<Longrightarrow> s1 = snd (ensure_user_seen s name)"
  using unread_count_snd [of s name partner_key] by simp

lemma recent_loop_frame:
  "users (snd (recent_loop s user ks seen_partners acc)) = users s \<and>
   conversations (snd (recent_loop s user ks seen_partners acc)) = conversations s \<and>
   seen_mark (snd (recent_loop s user ks seen_partners acc)) viewer key = seen_mark s viewer key"
proof (induction ks arbitrary: s seen_partners acc user)
  case Nil
  show ?case by simp
next
  case (Cons k ks)
  note ih = Cons.IH [THEN conjunct1] Cons.IH [THEN conjunct2, THEN conjunct1]
    Cons.IH [THEN conjunct2, THEN conjunct2]
  show ?case
    by (auto simp: Let_def ih dest!: unread_count_state split: option.splits prod.splits)
qed

lemma payload_frame:
  "users (snd (build_dashboard_payload s user query)) = users s \<and>
   conversations (snd (build_dashboard_payload s user query)) = conversations s \<and>
   seen_mark (snd (build_dashboard_payload s user query)) viewer key = seen_mark s viewer key"
proof -
  let ?q = "lower (strip query)"
  obtain ms s1 where m: "matches_loop s user ?q (users s) [] = (ms, s1)"
    by (cases "matches_loop s user ?q (users s) []")
  obtain rs s2 where r: "recent_loop s1 user (map fst (conversations s1)) [] [] = (rs, s2)"
    by (cases "recent_loop s1 user (map fst (conversations s1)) [] []")
  have s1: "s1 = snd (matches_loop s user ?q (users s) [])" using m by simp
  have s2: "s2 = snd (recent_loop s1 user (map fst (conversations s1)) [] [])" using r by simp
  have b: "snd (build_dashboard_payload s user query) = s2"
    by (simp add: build_dashboard_payload_def Let_def m r)
  have f1: "users s1 = users s" "conversations s1 = conversations s"
    "seen_mark s1 viewer key = seen_mark s viewer key"
    unfolding s1 using matches_loop_frame [of s user ?q "users s" "[]" viewer key] by simp_all
  have f2: "users s2 = users s1" "conversations s2 = conversations s1"
    "seen_mark s2 viewer key = seen_mark s1 viewer key"
    unfolding s2
    using recent_loop_frame [of s1 user "map fst (conversations s1)" "[]" "[]" viewer key]
    by simp_all
  show ?thesis unfolding b using f1 f2 by simp
qed

lemma serialize_messages_state:
  "serialize_messages s viewer partner_key mark_seen = Inr (vs, s') \<Longrightarrow>
     s' = (if mark_seen then mark_conversation_seen s viewer partner_key else s)"
  by (auto simp: serialize_messages_def Let_def split: sum.splits)

section \<open>What the projection returns\<close>

lemma serialize_loop_views:
  "serialize_loop us viewer pd es acc = Inr vs \<Longrightarrow>
     \<exists>ws. vs = acc @ ws \<and> list_all2 (\<lambda>e w. project_entry us viewer pd e = Inr w) es ws"
proof (induction es arbitrary: acc)
  case Nil
  then show ?case by simp
next
  case (Cons e es)
  from Cons.prems obtain v where v: "project_entry us viewer pd e = Inr v"
    and rest: "serialize_loop us viewer pd es (acc @ [v]) = Inr vs"
    by (auto split: sum.splits)
  from Cons.IH [OF rest] obtain ws where
    "vs = (acc @ [v]) @ ws" "list_all2 (\<lambda>e w. project_entry us viewer pd e = Inr w) es ws"
    by blast
  then have "vs = acc @ (v # ws) \<and>
      list_all2 (\<lambda>e w. project_entry us viewer pd e = Inr w) (e # es) (v # ws)"
    using v by simp
  then show ?case by blast
qed

lemma serialize_loop_succeeds:
  "\<forall>e \<in> set es. sender e = viewer \<or> dict_mem (sender e) us \<Longrightarrow>
     \<exists>vs. serialize_loop us viewer pd es acc = Inr vs"
proof (induction es arbitrary: acc)
  case Nil
  show ?case by simp
next
  case (Cons e es)
  have "sender e = viewer \<or> dict_mem (sender e) us" using Cons.prems by simp
  then have "\<exists>v. project_entry us viewer pd e = Inr v"
    by (auto simp: project_entry_def dict_item_def dict_mem_def)
  then obtain v where v: "project_entry us viewer pd e = Inr v" by blast
  have "\<forall>e \<in> set es. sender e = viewer \<or> dict_mem (sender e) us" using Cons.prems by simp
  from Cons.IH [OF this] show ?case by (simp add: v)
qed

lemma serialize_messages_views:
  assumes "serialize_messages s viewer partner_key mark_seen = Inr (vs, s')"
  shows "\<exists>pd. map_of (users s) partner_key = Some pd \<and>
           list_all2 (\<lambda>e w. project_entry (users s) viewer pd e = Inr w)
             (conv_get s (conversation_key viewer partner_key)) vs"
proof -
  from assms obtain pd where pd: "dict_item (users s) partner_key = Inr pd"
    and l: "serialize_loop (users s) viewer pd
              (conv_get s (conversation_key viewer partner_key)) [] = Inr vs"
    by (auto simp: serialize_messages_def Let_def split: sum.splits)
  from pd have "map_of (users s) partner_key = Some pd"
    by (simp add: dict_item_def split: option.splits)
  moreover from serialize_loop_views [OF l]
  have "list_all2 (\<lambda>e w. project_entry (users s) viewer pd e = Inr w)
          (conv_get s (conversation_key viewer partner_key)) vs" by simp
  ultimately show ?thesis by blast
qed

lemma project_entry_created_by: "project_entry us viewer pd e = Inr w \<Longrightarrow> created_by w = sender e"
  by (auto simp: project_entry_def split: if_splits sum.splits)

lemma serialize_messages_created_by:
  assumes "serialize_messages s viewer partner_key mark_seen = Inr (vs, s')"
  shows "map created_by vs = map sender (conv_get s (conversation_key viewer partner_key))"
proof -
  from serialize_messages_views [OF assms] obtain pd where
    l: "list_all2 (\<lambda>e w. project_entry (users s) viewer pd e = Inr w)
          (conv_get s (conversation_key viewer partner_key)) vs" by blast
  then have "list_all2 (\<lambda>e w. sender e = created_by w)
          (conv_get s (conversation_key viewer partner_key)) vs"
    by (rule list_all2_mono) (simp add: project_entry_created_by)
  then show ?thesis
    by (induction rule: list_all2_induct) simp_all
qed

lemma project_entry_self:
  "sender e = viewer \<Longrightarrow> project_entry us viewer pd e = Inr w \<Longrightarrow>
     is_self w \<and> sender_label w = ''You'' \<and> primary_text w = original_text e \<and>
     secondary_text w = translated_text e"
  by (auto simp: project_entry_def)

lemma project_entry_other:
  "sender e \<noteq> viewer \<Longrightarrow> project_entry us viewer pd e = Inr w \<Longrightarrow>
     \<not> is_self w \<and>
     primary_text w = (if translated_text e \<noteq> [] then translated_text e else original_text e) \<and>
     secondary_text w = original_text e \<and>
     (\<exists>u. map_of us (sender e) = Some u \<and> sender_label w = display_name u)"
  by (auto simp: project_entry_def dict_item_def split: sum.splits option.splits)

section \<open>Every step advances the logs and the marks\<close>

lemma advances_same:
  assumes "conversations s' = conversations s"
    and "\<And>v k. seen_mark s' v k = seen_mark s v k"
  shows "advances s s'"
proof -
  have "conv_get s' k = conv_get s k" for k
    by (simp add: conv_get_def assms(1))
  then show ?thesis by (simp add: advances_def assms(2))
qed

lemma advances_refl: "advances s s"
  by (simp add: advances_def)

lemma advances_ensure: "advances s (snd (ensure_user_seen s name))"
  by (rule advances_same) simp_all

lemma advances_mark: "advances s (mark_conversation_seen s viewer partner_key)"
  by (simp add: advances_def seen_mark_mark)

lemma advances_unread: "advances s (snd (unread_count s name partner_key))"
  by (rule advances_same) simp_all

lemma advances_save: "advances s (snd (save_message s a b original translated))"
  by (simp add: advances_def seen_mark_save conv_get_save)

lemma advances_serialize:
  "serialize_messages s viewer partner_key mark_seen = Inr (vs, s') \<Longrightarrow> advances s s'"
  by (drule serialize_messages_state) (simp add: advances_refl advances_mark)

lemma advances_payload: "advances s (snd (build_dashboard_payload s user query))"
  by (rule advances_same) (simp_all add: payload_frame)

lemma seen_mark_users_update [simp]: "seen_mark (s\<lparr>users := us\<rparr>) v k = seen_mark s v k"
  by (simp add: seen_mark_def)

lemma login_frame:
  "conversations (snd (login s session_username form)) = conversations s \<and>
   seen_mark (snd (login s session_username form)) v k = seen_mark s v k"
  by (simp add: login_def Let_def split: option.splits prod.splits)

lemma advances_login: "advances s (snd (login s session_username form))"
  by (rule advances_same) (simp_all add: login_frame)

lemma advances_dashboard: "advances s (snd (dashboard s session_username query))"
proof (cases "current_user s session_username")
  case None
  then show ?thesis by (simp add: dashboard_def advances_refl)
next
  case (Some user)
  have "snd (dashboard s session_username query) = snd (build_dashboard_payload s user query)"
    by (simp add: dashboard_def Some split: prod.splits)
  then show ?thesis by (simp add: advances_payload)
qed

lemma advances_dashboard_data: "advances s (snd (dashboard_data s session_username query))"
proof (cases "current_user s session_username")
  case None
  then show ?thesis by (simp add: dashboard_data_def advances_refl)
next
  case (Some user)
  have "snd (dashboard_data s session_username query) =
      snd (build_dashboard_payload s user query)"
    by (simp add: dashboard_data_def Some split: prod.splits)
  then show ?thesis by (simp add: advances_payload)
qed

lemma chat_state:
  "snd (chat s session_username partner) = s \<or>
   (\<exists>viewer partner_key. snd (chat s session_username partner) =
      mark_conversation_seen s viewer partner_key)"
proof (cases "current_user s session_username")
  case None
  then show ?thesis by (simp add: chat_def)
next
  case (Some user)
  show ?thesis
  proof (cases "\<not> dict_mem (lower partner) (users s) \<or> lower partner = user")
    case True
    then show ?thesis by (simp add: chat_def Some Let_def)
  next
    case False
    show ?thesis
    proof (cases "serialize_messages s user (lower partner) True")
      case (Inl exc)
      then show ?thesis using False by (simp add: chat_def Some Let_def)
    next
      case (Inr p)
      obtain vs s1 where p: "p = (vs, s1)" by (cases p)
      from serialize_messages_state [of s user "lower partner" True vs s1] Inr p
      have "s1 = mark_conversation_seen s user (lower partner)" by simp
      then have "snd (chat s session_username partner) =
          mark_conversation_seen s user (lower partner)"
        using False by (simp add: chat_def Some Let_def Inr p)
      then show ?thesis by blast
    qed
  qed
qed

lemma chat_messages_state:
  "snd (chat_messages s session_username partner) = s \<or>
   (\<exists>viewer partner_key. snd (chat_messages s session_username partner) =
      mark_conversation_seen s viewer partner_key)"
proof (cases "current_user s session_username")
  case None
  then show ?thesis by (simp add: chat_messages_def)
next
  case (Some user)
  show ?thesis
  proof (cases "\<not> dict_mem (lower partner) (users s) \<or> lower partner = user")
    case True
    then show ?thesis by (simp add: chat_messages_def Some Let_def)
  next
    case False
    show ?thesis
    proof (cases "serialize_messages s user (lower partner) True")
      case (Inl exc)
      then show ?thesis using False by (simp add: chat_messages_def Some Let_def)
    next
      case (Inr p)
      obtain vs s1 where p: "p = (vs, s1)" by (cases p)
      from serialize_messages_state [of s user "lower partner" True vs s1] Inr p
      have "s1 = mark_conversation_seen s user (lower partner)" by simp
      then have "snd (chat_messages s session_username partner) =
          mark_conversation_seen s user (lower partner)"
        using False by (simp add: chat_messages_def Some Let_def Inr p)
      then show ?thesis by blast
    qed
  qed
qed

lemma advances_chat: "advances s (snd (chat s session_username partner))"
proof -
  have "snd (chat s session_username partner) = s \<or>
    (\<exists>viewer partner_key. snd (chat s session_username partner) =
       mark_conversation_seen s viewer partner_key)"
    by (rule chat_state)
  then show ?thesis
  proof (elim disjE exE)
    assume "snd (chat s session_username partner) = s"
    then show ?thesis by (simp only: advances_refl)
  next
    fix viewer partner_key
    assume "snd (chat s session_username partner) = mark_conversation_seen s viewer partner_key"
    then show ?thesis by (simp only: advances_mark)
  qed
qed

lemma advances_chat_messages: "advances s (snd (chat_messages s session_username partner))"
proof -
  have "snd (chat_messages s session_username partner) = s \<or>
    (\<exists>viewer partner_key. snd (chat_messages s session_username partner) =
       mark_conversation_seen s viewer partner_key)"
    by (rule chat_messages_state)
  then show ?thesis
  proof (elim disjE exE)
    assume "snd (chat_messages s session_username partner) = s"
    then show ?thesis by (simp only: advances_refl)
  next
    fix viewer partner_key
    assume "snd (chat_messages s session_username partner) =
      mark_conversation_seen s viewer partner_key"
    then show ?thesis by (simp only: advances_mark)
  qed
qed

lemma send_message_valid:
  assumes "current_user s session_username = Some user"
    and "map_of (users s) (lower partner) = Some partner_data"
    and "lower partner \<noteq> user"
    and "strip (case message of None \<Rightarrow> [] | Some m \<Rightarrow> m) = message_text"
    and "message_text \<noteq> []"
  shows "send_message s generate_content session_username partner message =
    (case translate_message generate_content message_text (language partner_data) of
       Inl exc \<Rightarrow> (translate_failed exc, s)
     | Inr translated \<Rightarrow>
         (case serialize_messages
                 (snd (save_message s user (lower partner) message_text translated))
                 user (lower partner) False of
            Inl exc \<Rightarrow>
              (translate_failed exc,
               snd (save_message s user (lower partner) message_text translated))
          | Inr (messages_for_view, s2) \<Rightarrow>
              if messages_for_view = [] then (translate_failed IndexError, s2)
              else (Json (last messages_for_view), s2)))"
  using assms
  by (simp add: send_message_def dict_mem_def dict_item_def Let_def split: prod.splits sum.splits)

lemma send_message_unauthenticated:
  "current_user s session_username = None \<Longrightarrow>
     send_message s generate_content session_username partner message =
       (Json_error 401 ''Not authenticated'', s)"
  by (simp add: send_message_def)

lemma send_message_invalid:
  "current_user s session_username = Some user \<Longrightarrow>
   \<not> dict_mem (lower partner) (users s) \<or> lower partner = user \<Longrightarrow>
     send_message s generate_content session_username partner message =
       (Json_error 400 ''Invalid conversation'', s)"
  by (simp add: send_message_def Let_def)

lemma send_message_empty:
  "current_user s session_username = Some user \<Longrightarrow>
   dict_mem (lower partner) (users s) \<Longrightarrow> lower partner \<noteq> user \<Longrightarrow>
   strip (case message of None \<Rightarrow> [] | Some m \<Rightarrow> m) = [] \<Longrightarrow>
     send_message s generate_content session_username partner message =
       (Json_error 400 ''Type a message before sending.'', s)"
  by (simp add: send_message_def Let_def)

lemma send_message_state:
  "snd (send_message s generate_content session_username partner message) = s \<or>
   (\<exists>a b original translated.
      snd (send_message s generate_content session_username partner message) =
        snd (save_message s a b original translated))"
proof (cases "current_user s session_username")
  case None
  then show ?thesis by (simp add: send_message_unauthenticated)
next
  case (Some user)
  define message_text where "message_text = strip (case message of None \<Rightarrow> [] | Some m \<Rightarrow> m)"
  show ?thesis
  proof (cases "\<not> dict_mem (lower partner) (users s) \<or> lower partner = user")
    case True
    then show ?thesis by (simp add: send_message_invalid [OF Some])
  next
    case valid: False
    show ?thesis
    proof (cases "message_text = []")
      case True
      then show ?thesis
        using valid send_message_empty [OF Some, of partner message generate_content]
        by (simp add: message_text_def)
    next
      case False
      from valid obtain partner_data where
        pd: "map_of (users s) (lower partner) = Some partner_data"
        by (auto simp: dict_mem_def)
      from valid have ne: "lower partner \<noteq> user" by simp
      note v = send_message_valid [OF Some pd ne message_text_def [symmetric] False,
          of generate_content]
      show ?thesis
      proof (cases "translate_message generate_content message_text (language partner_data)")
        case (Inl exc)
        then show ?thesis by (simp add: v)
      next
        case (Inr translated)
        let ?s1 = "snd (save_message s user (lower partner) message_text translated)"
        have "snd (send_message s generate_content session_username partner message) = ?s1"
        proof (cases "serialize_messages ?s1 user (lower partner) False")
          case (Inl exc)
          then show ?thesis by (simp add: v Inr)
        next
          case r: (Inr p)
          obtain vs s2 where p: "p = (vs, s2)" by (cases p)
          from serialize_messages_state [of ?s1 user "lower partner" False vs s2] r p
          have "s2 = ?s1" by simp
          then show ?thesis by (simp add: v Inr r p)
        qed
        then show ?thesis by blast
      qed
    qed
  qed
qed

lemma advances_send:
  "advances s (snd (send_message s generate_content session_username partner message))"
proof -
  have "snd (send_message s generate_content session_username partner message) = s \<or>
   (\<exists>a b original translated.
      snd (send_message s generate_content session_username partner message) =
        snd (save_message s a b original translated))"
    by (rule send_message_state)
  then show ?thesis
  proof (elim disjE exE)
    assume "snd (send_message s generate_content session_username partner message) = s"
    then show ?thesis by (simp only: advances_refl)
  next
    fix a b original translated
    assume "snd (send_message s generate_content session_username partner message) =
        snd (save_message s a b original translated)"
    then show ?thesis by (simp only: advances_save)
  qed
qed

lemma settings_frame:
  "conversations (snd (settings s session_username form)) = conversations s \<and>
   seen_mark (snd (settings s session_username form)) v k = seen_mark s v k"
  by (simp add: settings_def Let_def split: option.splits sum.splits)

lemma advances_settings: "advances s (snd (settings s session_username form))"
  by (rule advances_same) (simp_all add: settings_frame)


lemma step_advances: "step s s' \<Longrightarrow> advances s s'"
  by (induction rule: step.induct)
    (simp_all add: advances_ensure advances_mark advances_unread advances_save
      advances_serialize advances_payload advances_login advances_dashboard
      advances_dashboard_data advances_chat advances_chat_messages advances_send
      advances_settings)

lemma seen_inv_init: "seen_inv init"
  by (simp add: seen_inv_def init_def seen_mark_def conv_get_def dict_get_def)

lemma seen_invD:
  "seen_inv s \<Longrightarrow>
     0 \<le> seen_mark s viewer key \<and> seen_mark s viewer key \<le> int (length (conv_get s key))"
  unfolding seen_inv_def by blast

lemma advancesD:
  "advances s s' \<Longrightarrow>
     length (conv_get s k) \<le> length (conv_get s' k) \<and>
     (seen_mark s' v k = seen_mark s v k \<or> seen_mark s' v k = int (length (conv_get s' k)))"
  unfolding advances_def by blast

lemma seen_inv_advances:
  assumes "seen_inv s" and "advances s s'"
  shows "seen_inv s'"
proof -
  have "0 \<le> seen_mark s' viewer key \<and> seen_mark s' viewer key \<le> int (length (conv_get s' key))"
    for viewer key
    using seen_invD [OF assms(1), of viewer key] advancesD [OF assms(2), of key viewer]
    by auto
  then show ?thesis unfolding seen_inv_def by blast
qed

lemma seen_mark_advances:
  assumes "seen_inv s" and "advances s s'"
  shows "seen_mark s viewer key \<le> seen_mark s' viewer key"
  using seen_invD [OF assms(1), of viewer key] advancesD [OF assms(2), of key viewer]
  by auto

lemma reachable_seen_inv: "reachable s \<Longrightarrow> seen_inv s"
  by (induction rule: reachable.induct)
    (auto intro: seen_inv_init seen_inv_advances step_advances)

section \<open>The concrete run, step by step\<close>

lemma logged_in_run:
  "logged_in = snd (login (snd (login init None (Some (''Alice'', ''English'')))) None
     (Some (''Bob'', ''French'')))"
  by code_simp

lemma after_hello_run:
  "send_message logged_in french_provider (Some ''alice'') ''Bob'' (Some ''Hello '') =
     (Json \<lparr>is_self = True, sender_label = ''You'', primary_text = ''Hello'',
            secondary_label = ''Translated for Bob (French):'',
            secondary_text = ''Bonjour'', created_by = ''alice''\<rparr>, after_hello)"
  by code_simp

lemma bob_reads_hello:
  "serialize_messages after_hello ''bob'' ''alice'' True = Inr ([hello_for_bob], after_bob_read)"
  by code_simp

text \<open>
  Alice logs in again and types her name in capitals: Bob's view of the message she sent
  before now carries the new name.
\<close>

lemma renamed_sender_shows_new_name:
  "serialize_messages (snd (login after_hello None (Some (''ALICE'', [])))) ''bob'' ''alice'' False =
     Inr ([hello_for_bob\<lparr>sender_label := ''ALICE''\<rparr>],
          snd (login after_hello None (Some (''ALICE'', []))))"
  by code_simp

lemma reachable_logged_in: "reachable logged_in"
  unfolding logged_in_run
  by (intro reachable_step [OF _ step_login] reachable_init)

lemma reachable_after_hello: "reachable after_hello"
proof -
  have "after_hello =
      snd (send_message logged_in french_provider (Some ''alice'') ''Bob'' (Some ''Hello ''))"
    by (simp add: after_hello_run)
  moreover have "reachable
      (snd (send_message logged_in french_provider (Some ''alice'') ''Bob'' (Some ''Hello '')))"
    by (rule reachable_step [OF reachable_logged_in step_send])
  ultimately show ?thesis by simp
qed

lemma after_hello_log: "conv_get after_hello (conversation_key ''alice'' ''bob'') = [hello]"
  by code_simp

section \<open>Two remarks on the dashboard and on the provider\<close>

text \<open>
  For a viewer who already has a dictionary in \<open>user_seen\<close> (every logged-in user has
  one: \<open>login\<close> calls \<open>ensure_user_seen\<close>), the dashboard leaves the whole state as it
  is.
\<close>

lemma unread_count_known_viewer:
  "map_of (user_seen s) user = Some d \<Longrightarrow> snd (unread_count s user partner_key) = s"
  by (simp add: unread_count_snd ensure_user_seen_present)

lemma matches_loop_known_viewer:
  "map_of (user_seen s) user = Some d \<Longrightarrow> snd (matches_loop s user q us acc) = s"
proof (induction us arbitrary: acc)
  case Nil
  show ?case by simp
next
  case (Cons p us)
  obtain name data where p: "p = (name, data)" by (cases p)
  obtain n s1 where u: "unread_count s user name = (n, s1)" by (cases "unread_count s user name")
  have "s1 = s" using unread_count_known_viewer [OF Cons.prems, of name] u by simp
  then show ?case using Cons.IH [OF Cons.prems] u by (simp add: p)
qed

lemma recent_loop_known_viewer:
  "map_of (user_seen s) user = Some d \<Longrightarrow> snd (recent_loop s user ks seen_partners acc) = s"
proof (induction ks arbitrary: user seen_partners acc)
  case Nil
  show ?case by simp
next
  case (Cons k ks)
  show ?case
    using Cons.prems
    by (auto simp: Let_def case_prod_unfold unread_count_known_viewer Cons.IH
        split: option.splits)
qed

lemma payload_known_viewer:
  assumes "map_of (user_seen s) user = Some d"
  shows "snd (build_dashboard_payload s user query) = s"
proof -
  let ?q = "lower (strip query)"
  obtain ms s1 where m: "matches_loop s user ?q (users s) [] = (ms, s1)"
    by (cases "matches_loop s user ?q (users s) []")
  have s1: "s1 = s" using matches_loop_known_viewer [OF assms, of ?q "users s" "[]"] m by simp
  obtain rs s2 where r: "recent_loop s user (map fst (conversations s)) [] [] = (rs, s2)"
    by (cases "recent_loop s user (map fst (conversations s)) [] []")
  have s2: "s2 = s"
    using recent_loop_known_viewer [OF assms, of "map fst (conversations s)" "[]" "[]"] r
    by simp
  show ?thesis
    using m r by (simp add: build_dashboard_payload_def Let_def s1 s2)
qed

text \<open>
  A response that is not empty but holds only white space is not a fallback case: it is
  stripped, and the empty string is what \<open>translate_message\<close> returns.
\<close>

lemma blank_response_is_stripped:
  "translate_message (\<lambda>message_text target_language. Inr (Some '' '')) ''Hello'' ''French'' =
     Inr []"
  by code_simp

section \<open>The properties of the specification\<close>

text \<open>
  Claim C1. The conversation key does not depend on the order of the two user ids, and
  every operation called with \<open>(a, b)\<close> works on the log stored under the key of
  \<open>(b, a)\<close>: \<open>save_message\<close> appends to it, \<open>mark_conversation_seen\<close> records its
  length, \<open>unread_count\<close> counts it, and \<open>serialize_messages\<close> projects its messages.
\<close>

theorem conversation_key_symmetric:
  "conversation_key a b = conversation_key b a \<and>
   conv_get (snd (save_message s a b original translated)) (conversation_key b a) =
     conv_get s (conversation_key b a) @
       [\<lparr>sender = a, recipient = b, original_text = original, translated_text = translated\<rparr>] \<and>
   seen_mark (mark_conversation_seen s a b) a (conversation_key b a) =
     int (length (conv_get s (conversation_key b a))) \<and>
   fst (unread_count s a b) =
     max (int (length (conv_get s (conversation_key b a))) - seen_mark s a (conversation_key b a)) 0 \<and>
   (\<forall>vs s'. serialize_messages s a b mark_seen = Inr (vs, s') \<longrightarrow>
      map created_by vs = map sender (conv_get s (conversation_key b a)))"
proof -
  have k: "conversation_key a b = conversation_key b a" by (rule conversation_key_commute)
  have "conv_get (snd (save_message s a b original translated)) (conversation_key a b) =
     conv_get s (conversation_key a b) @
       [\<lparr>sender = a, recipient = b, original_text = original, translated_text = translated\<rparr>]"
    by (simp add: conv_get_save save_message_fst)
  moreover have "seen_mark (mark_conversation_seen s a b) a (conversation_key a b) =
     int (length (conv_get s (conversation_key a b)))"
    by (simp add: seen_mark_mark)
  moreover note unread_count_fst [of s a b]
  moreover have "\<forall>vs s'. serialize_messages s a b mark_seen = Inr (vs, s') \<longrightarrow>
      map created_by vs = map sender (conv_get s (conversation_key a b))"
    using serialize_messages_created_by by blast
  ultimately show ?thesis unfolding k [symmetric] using k by simp
qed

theorem conversation_key_symmetric_witness:
  "conversation_key ''bob'' ''alice'' = conversation_key ''alice'' ''bob'' \<and>
   serialize_messages after_hello ''bob'' ''alice'' True = Inr ([hello_for_bob], after_bob_read) \<and>
   map created_by [hello_for_bob] = map sender (conv_get after_hello (conversation_key ''alice'' ''bob''))"
  using conversation_key_symmetric [of "''bob''" "''alice''" after_hello "''Salut''" "''Hi''" True]
    bob_reads_hello
  by simp


text \<open>
  Claim C2. When the handler has accepted the request (the sender is logged in, the
  partner is another registered user and the message is not blank) and the provider call
  raises, the handler answers 500 with the provider's diagnostic and leaves the state as
  it was: no log and no seen mark has changed.
\<close>

theorem failed_translation_stores_nothing:
  assumes "current_user s session_username = Some user"
    and "map_of (users s) (lower partner) = Some partner_data"
    and "lower partner \<noteq> user"
    and "strip (case message of None \<Rightarrow> [] | Some m \<Rightarrow> m) = message_text"
    and "message_text \<noteq> []"
    and "generate_content message_text (language partner_data) = Inl exc"
  shows "send_message s generate_content session_username partner message =
    (Json_error 500 (''Could not translate your message: '' @ str_of_error exc), s)"
proof -
  have "translate_message generate_content message_text (language partner_data) = Inl exc"
    by (simp add: translate_message_def assms(6))
  then show ?thesis
    by (simp add: send_message_valid [OF assms(1-5)] translate_failed_def)
qed

theorem failed_translation_stores_nothing_witness:
  "current_user logged_in (Some ''alice'') = Some ''alice'' \<and>
   map_of (users logged_in) (lower ''Bob'') =
     Some \<lparr>display_name = ''Bob'', language = ''French''\<rparr> \<and>
   lower ''Bob'' \<noteq> ''alice'' \<and> strip ''Hello '' = ''Hello'' \<and>
   failing_provider ''Hello'' ''French'' = Inl (ProviderError ''timeout'') \<and>
   send_message logged_in failing_provider (Some ''alice'') ''Bob'' (Some ''Hello '') =
     (Json_error 500 ''Could not translate your message: timeout'', logged_in)"
proof -
  have 1: "current_user logged_in (Some ''alice'') = Some ''alice''" by code_simp
  have 2: "map_of (users logged_in) (lower ''Bob'') =
      Some \<lparr>display_name = ''Bob'', language = ''French''\<rparr>" by code_simp
  have 3: "lower ''Bob'' \<noteq> ''alice''" by code_simp
  have 4: "strip (case Some ''Hello '' of None \<Rightarrow> [] | Some m \<Rightarrow> m) = ''Hello''" by code_simp
  have 5: "''Hello'' \<noteq> []" by simp
  have 6: "failing_provider ''Hello'' (language \<lparr>display_name = ''Bob'', language = ''French''\<rparr>) =
      Inl (ProviderError ''timeout'')" by (simp add: failing_provider_def)
  from failed_translation_stores_nothing
    [of logged_in "Some ''alice''" "''alice''" "''Bob''"
      "\<lparr>display_name = ''Bob'', language = ''French''\<rparr>" "Some ''Hello ''" "''Hello''"
      failing_provider "ProviderError ''timeout''"] 1 2 3 4 6
  show ?thesis by simp
qed

text \<open>
  Claim C3. When the handler has accepted the request and the provider call returns with
  no text (\<open>None\<close> or the empty string), \<open>translate_message\<close> returns the message itself
  and the send appends a message whose translated text is its original text, which is not
  blank. When moreover the sender of every message already in that log is a registered
  user, the answer is the projection of the new message and not an error.
\<close>

theorem empty_translation_falls_back:
  assumes "current_user s session_username = Some user"
    and "map_of (users s) (lower partner) = Some partner_data"
    and "lower partner \<noteq> user"
    and "strip (case message of None \<Rightarrow> [] | Some m \<Rightarrow> m) = message_text"
    and "message_text \<noteq> []"
    and "generate_content message_text (language partner_data) = Inr None \<or>
         generate_content message_text (language partner_data) = Inr (Some [])"
  shows "translate_message generate_content message_text (language partner_data) =
      Inr message_text \<and>
    conv_get (snd (send_message s generate_content session_username partner message))
        (conversation_key user (lower partner)) =
      conv_get s (conversation_key user (lower partner)) @
        [\<lparr>sender = user, recipient = lower partner,
          original_text = message_text, translated_text = message_text\<rparr>] \<and>
    ((\<forall>e \<in> set (conv_get s (conversation_key user (lower partner))).
         dict_mem (sender e) (users s)) \<longrightarrow>
     (\<exists>w. fst (send_message s generate_content session_username partner message) = Json w \<and>
        is_self w \<and> primary_text w = message_text \<and> secondary_text w = message_text))"
proof -
  let ?key = "conversation_key user (lower partner)"
  let ?new = "\<lparr>sender = user, recipient = lower partner,
          original_text = message_text, translated_text = message_text\<rparr>"
  let ?s1 = "snd (save_message s user (lower partner) message_text message_text)"
  have tr: "translate_message generate_content message_text (language partner_data) =
      Inr message_text"
    using assms(6) by (auto simp: translate_message_def)
  note v = send_message_valid [OF assms(1-5), of generate_content]
  have log1: "conv_get ?s1 ?key = conv_get s ?key @ [?new]"
    by (simp add: conv_get_save save_message_fst)
  have st: "snd (send_message s generate_content session_username partner message) = ?s1"
  proof (cases "serialize_messages ?s1 user (lower partner) False")
    case (Inl exc)
    then show ?thesis by (simp add: v tr)
  next
    case (Inr p)
    obtain vs s2 where p: "p = (vs, s2)" by (cases p)
    from serialize_messages_state [of ?s1 user "lower partner" False vs s2] Inr p
    have "s2 = ?s1" by simp
    then show ?thesis by (simp add: v tr Inr p)
  qed
  have resp: "\<exists>w. fst (send_message s generate_content session_username partner message) = Json w \<and>
        is_self w \<and> primary_text w = message_text \<and> secondary_text w = message_text"
    if reg: "\<forall>e \<in> set (conv_get s ?key). dict_mem (sender e) (users s)"
  proof -
    have "\<forall>e \<in> set (conv_get s ?key @ [?new]). sender e = user \<or> dict_mem (sender e) (users s)"
      using reg by simp
    from serialize_loop_succeeds [OF this, of partner_data "[]"]
    obtain vs where loop: "serialize_loop (users s) user partner_data (conv_get s ?key @ [?new]) [] =
        Inr vs" by blast
    have pd: "dict_item (users s) (lower partner) = Inr partner_data"
      by (simp add: dict_item_def assms(2))
    have ser: "serialize_messages ?s1 user (lower partner) False = Inr (vs, ?s1)"
      unfolding serialize_messages_def Let_def log1 users_save pd using loop by simp
    from serialize_loop_views [OF loop]
    have all: "list_all2 (\<lambda>e w. project_entry (users s) user partner_data e = Inr w)
        (conv_get s ?key @ [?new]) vs"
      by simp
    then obtain us w where vs: "vs = us @ [w]"
      and w: "project_entry (users s) user partner_data ?new = Inr w"
      by (auto simp: list_all2_append1 list_all2_Cons1)
    have "fst (send_message s generate_content session_username partner message) = Json w"
      by (simp add: v tr ser vs)
    moreover have "is_self w \<and> primary_text w = message_text \<and> secondary_text w = message_text"
      using project_entry_self [OF _ w] by simp
    ultimately show ?thesis by blast
  qed
  show ?thesis using tr st log1 resp by simp
qed

theorem empty_translation_falls_back_witness:
  "empty_provider ''Hello'' ''French'' = Inr (Some []) \<and>
   translate_message empty_provider ''Hello'' ''French'' = Inr ''Hello'' \<and>
   conv_get (snd (send_message logged_in empty_provider (Some ''alice'') ''Bob'' (Some ''Hello '')))
       (conversation_key ''alice'' ''bob'') =
     [\<lparr>sender = ''alice'', recipient = ''bob'',
       original_text = ''Hello'', translated_text = ''Hello''\<rparr>] \<and>
   (\<exists>w. fst (send_message logged_in empty_provider (Some ''alice'') ''Bob'' (Some ''Hello '')) =
          Json w \<and>
        is_self w \<and> primary_text w = ''Hello'' \<and> secondary_text w = ''Hello'')"
proof -
  have 1: "current_user logged_in (Some ''alice'') = Some ''alice''" by code_simp
  have 2: "map_of (users logged_in) (lower ''Bob'') =
      Some \<lparr>display_name = ''Bob'', language = ''French''\<rparr>" by code_simp
  have 3: "lower ''Bob'' \<noteq> ''alice''" by code_simp
  have 4: "strip (case Some ''Hello '' of None \<Rightarrow> [] | Some m \<Rightarrow> m) = ''Hello''" by code_simp
  have 5: "''Hello'' \<noteq> []" by simp
  have 6: "empty_provider ''Hello'' (language \<lparr>display_name = ''Bob'', language = ''French''\<rparr>) =
        Inr None \<or>
      empty_provider ''Hello'' (language \<lparr>display_name = ''Bob'', language = ''French''\<rparr>) =
        Inr (Some [])" by (simp add: empty_provider_def)
  have l: "lower ''Bob'' = ''bob''" by code_simp
  have e: "conv_get logged_in (conversation_key ''alice'' ''bob'') = []" by code_simp
  from empty_translation_falls_back
    [of logged_in "Some ''alice''" "''alice''" "''Bob''"
      "\<lparr>display_name = ''Bob'', language = ''French''\<rparr>" "Some ''Hello ''" "''Hello''"
      empty_provider] 1 2 3 4 6 l e
  show ?thesis by (simp add: empty_provider_def)
qed


text \<open>
  Claim C4. When \<open>serialize_messages\<close> returns, it returns one view per stored message,
  in order. The view of a message the viewer sent shows the original text first, the
  translated text second, and the label ``You''. The view of any other message shows the
  translated text first (the original text when the translation is empty), the original
  text second, and as label the display name that the \<open>users\<close> dictionary of the state
  at the time of the call holds for the sender.
\<close>

theorem projection_by_authorship:
  assumes "serialize_messages s viewer partner_key mark_seen = Inr (vs, s')"
    and "i < length (conv_get s (conversation_key viewer partner_key))"
  shows "length vs = length (conv_get s (conversation_key viewer partner_key)) \<and>
    (let e = conv_get s (conversation_key viewer partner_key) ! i; w = vs ! i
     in if sender e = viewer then
          is_self w \<and> sender_label w = ''You'' \<and> primary_text w = original_text e \<and>
          secondary_text w = translated_text e
        else
          \<not> is_self w \<and>
          primary_text w =
            (if translated_text e \<noteq> [] then translated_text e else original_text e) \<and>
          secondary_text w = original_text e \<and>
          (\<exists>u. map_of (users s) (sender e) = Some u \<and> sender_label w = display_name u))"
proof -
  let ?log = "conv_get s (conversation_key viewer partner_key)"
  from serialize_messages_views [OF assms(1)] obtain pd where
    l: "list_all2 (\<lambda>e w. project_entry (users s) viewer pd e = Inr w) ?log vs" by blast
  have len: "length vs = length ?log" using l by (simp add: list_all2_lengthD)
  have p: "project_entry (users s) viewer pd (?log ! i) = Inr (vs ! i)"
    using l assms(2) by (simp add: list_all2_conv_all_nth)
  show ?thesis
    using len project_entry_self [OF _ p] project_entry_other [OF _ p]
    by (simp add: Let_def)
qed

theorem projection_by_authorship_witness:
  "serialize_messages after_hello ''bob'' ''alice'' True = Inr ([hello_for_bob], after_bob_read) \<and>
   conv_get after_hello (conversation_key ''bob'' ''alice'') = [hello] \<and>
   sender hello \<noteq> ''bob'' \<and>
   \<not> is_self hello_for_bob \<and> primary_text hello_for_bob = translated_text hello \<and>
   secondary_text hello_for_bob = original_text hello \<and>
   (\<exists>u. map_of (users after_hello) (sender hello) = Some u \<and>
        sender_label hello_for_bob = display_name u)"
proof -
  have l: "conv_get after_hello (conversation_key ''bob'' ''alice'') = [hello]" by code_simp
  have s: "sender hello \<noteq> ''bob''" by code_simp
  have t: "translated_text hello \<noteq> []" by code_simp
  from projection_by_authorship [OF bob_reads_hello, of 0] l s t bob_reads_hello
  show ?thesis by (simp add: Let_def)
qed

text \<open>
  Claim C5. The unread count of a viewer for a partner is the length of the log under
  their conversation key minus the viewer's seen mark for that key, or 0 when that is
  negative; so it is never negative. A viewer with no dictionary in \<open>user_seen\<close>, or with
  no entry for the key, has the seen mark 0, and the count is the length of the log.
\<close>

theorem unread_count_clamped:
  "fst (unread_count s viewer partner) =
     max (int (length (conv_get s (conversation_key viewer partner)))
          - seen_mark s viewer (conversation_key viewer partner)) 0 \<and>
   0 \<le> fst (unread_count s viewer partner) \<and>
   (map_of (user_seen s) viewer = None \<or>
    (\<exists>d. map_of (user_seen s) viewer = Some d \<and>
         map_of d (conversation_key viewer partner) = None) \<longrightarrow>
    seen_mark s viewer (conversation_key viewer partner) = 0 \<and>
    fst (unread_count s viewer partner) =
      int (length (conv_get s (conversation_key viewer partner))))"
proof -
  let ?key = "conversation_key viewer partner"
  have u: "fst (unread_count s viewer partner) =
      max (int (length (conv_get s ?key)) - seen_mark s viewer ?key) 0"
    by (rule unread_count_fst)
  have z: "seen_mark s viewer ?key = 0"
    if "map_of (user_seen s) viewer = None \<or>
        (\<exists>d. map_of (user_seen s) viewer = Some d \<and> map_of d ?key = None)"
    using that by (auto simp: seen_mark_def dict_get_def)
  show ?thesis using u z by auto
qed

theorem unread_count_clamped_witness:
  "map_of (user_seen after_hello) ''bob'' = Some [] \<and>
   seen_mark after_hello ''bob'' (conversation_key ''bob'' ''alice'') = 0 \<and>
   fst (unread_count after_hello ''bob'' ''alice'') = 1"
proof -
  have m: "map_of (user_seen after_hello) ''bob'' = Some []" by code_simp
  have l: "conv_get after_hello (conversation_key ''bob'' ''alice'') = [hello]" by code_simp
  from unread_count_clamped [of after_hello "''bob''" "''alice''"] m l
  show ?thesis by simp
qed

text \<open>
  Claim C6. In a reachable state, when A's send to B succeeds and B had no unread message
  of the pair before, then afterwards A's seen mark is the new length of the log, A has
  no unread message of the pair and B has exactly one.
\<close>

theorem send_updates_unread:
  assumes "reachable s"
    and "current_user s session_username = Some a"
    and "send_message s generate_content session_username partner message = (Json w, s')"
    and "fst (unread_count s (lower partner) a) = 0"
  shows "seen_mark s' a (conversation_key a (lower partner)) =
           int (length (conv_get s' (conversation_key a (lower partner)))) \<and>
         fst (unread_count s' a (lower partner)) = 0 \<and>
         fst (unread_count s' (lower partner) a) = 1"
proof -
  let ?b = "lower partner"
  let ?key = "conversation_key a ?b"
  define message_text where "message_text = strip (case message of None \<Rightarrow> [] | Some m \<Rightarrow> m)"
  have valid: "dict_mem ?b (users s) \<and> ?b \<noteq> a"
  proof (rule ccontr)
    assume "\<not> (dict_mem ?b (users s) \<and> ?b \<noteq> a)"
    then have "\<not> dict_mem ?b (users s) \<or> ?b = a" by blast
    from send_message_invalid [OF assms(2) this, of generate_content message] assms(3)
    show False by simp
  qed
  have ne: "message_text \<noteq> []"
  proof
    assume "message_text = []"
    then have "strip (case message of None \<Rightarrow> [] | Some m \<Rightarrow> m) = []"
      by (simp add: message_text_def)
    from send_message_empty [OF assms(2) _ _ this, of partner generate_content] valid assms(3)
    show False by simp
  qed
  from valid obtain partner_data where pd: "map_of (users s) ?b = Some partner_data"
    by (auto simp: dict_mem_def)
  from valid have ab: "?b \<noteq> a" by simp
  note v = send_message_valid [OF assms(2) pd ab message_text_def [symmetric] ne,
      of generate_content]
  obtain translated where
    s': "s' = snd (save_message s a ?b message_text translated)"
  proof (cases "translate_message generate_content message_text (language partner_data)")
    case (Inl exc)
    with v assms(3) show ?thesis by (simp add: translate_failed_def)
  next
    case tr: (Inr translated)
    let ?s1 = "snd (save_message s a ?b message_text translated)"
    show ?thesis
    proof (cases "serialize_messages ?s1 a ?b False")
      case (Inl exc)
      with v tr assms(3) show ?thesis by (simp add: translate_failed_def)
    next
      case (Inr p)
      obtain vs s2 where p: "p = (vs, s2)" by (cases p)
      from serialize_messages_state [of ?s1 a ?b False vs s2] Inr p
      have "s2 = ?s1" by simp
      with v tr Inr p assms(3) have "s' = ?s1"
        by (simp add: translate_failed_def split: if_splits)
      then show ?thesis by (rule that)
    qed
  qed
  have k: "conversation_key ?b a = ?key" by (rule conversation_key_commute)
  have len: "int (length (conv_get s' ?key)) = int (length (conv_get s ?key)) + 1"
    by (simp add: s' conv_get_save)
  have ma: "seen_mark s' a ?key = int (length (conv_get s ?key)) + 1"
    by (simp add: s' seen_mark_save)
  have mb: "seen_mark s' ?b ?key = seen_mark s ?b ?key"
    using ab by (simp add: s' seen_mark_save)
  have inv: "seen_mark s ?b ?key \<le> int (length (conv_get s ?key))"
    using seen_invD [OF reachable_seen_inv [OF assms(1)], of ?b ?key] by simp
  have before: "int (length (conv_get s ?key)) \<le> seen_mark s ?b ?key"
    using assms(4) by (simp add: unread_count_fst k)
  have "fst (unread_count s' a ?b) = 0"
    by (simp add: unread_count_fst len ma)
  moreover have "fst (unread_count s' ?b a) = 1"
    using inv before by (simp add: unread_count_fst k len mb)
  ultimately show ?thesis using len ma by simp
qed

theorem send_updates_unread_witness:
  "reachable logged_in \<and>
   current_user logged_in (Some ''alice'') = Some ''alice'' \<and>
   fst (unread_count logged_in (lower ''Bob'') ''alice'') = 0 \<and>
   snd (send_message logged_in french_provider (Some ''alice'') ''Bob'' (Some ''Hello '')) =
     after_hello \<and>
   fst (unread_count after_hello ''alice'' (lower ''Bob'')) = 0 \<and>
   fst (unread_count after_hello (lower ''Bob'') ''alice'') = 1"
proof -
  have 1: "current_user logged_in (Some ''alice'') = Some ''alice''" by code_simp
  have 2: "fst (unread_count logged_in (lower ''Bob'') ''alice'') = 0" by code_simp
  from send_updates_unread [OF reachable_logged_in 1 after_hello_run 2]
    reachable_logged_in 1 2 after_hello_run
  show ?thesis by simp
qed


text \<open>
  Claim C7. \<open>mark_conversation_seen\<close> sets the viewer's seen mark for the conversation key
  to the length of the log at that moment and leaves the logs alone. Calling it a second
  time changes nothing: the state, and so the mark, is the same as after the first call,
  and the viewer has no unread message of the pair after one call or two.
\<close>

theorem mark_seen_idempotent:
  "seen_mark (mark_conversation_seen s viewer partner) viewer (conversation_key viewer partner) =
     int (length (conv_get s (conversation_key viewer partner))) \<and>
   conv_get (mark_conversation_seen s viewer partner) key = conv_get s key \<and>
   mark_conversation_seen (mark_conversation_seen s viewer partner) viewer partner =
     mark_conversation_seen s viewer partner \<and>
   fst (unread_count (mark_conversation_seen s viewer partner) viewer partner) = 0 \<and>
   fst (unread_count (mark_conversation_seen (mark_conversation_seen s viewer partner)
          viewer partner) viewer partner) = 0"
proof -
  let ?key = "conversation_key viewer partner"
  let ?m = "mark_conversation_seen s viewer partner"
  have m: "seen_mark ?m viewer ?key = int (length (conv_get s ?key))"
    by (simp add: seen_mark_mark)
  have twice: "mark_conversation_seen ?m viewer partner = ?m"
  proof -
    have "mark_conversation_seen ?m viewer partner =
        assign_seen ?m viewer ?key (int (length (conv_get s ?key)))"
      by (simp add: mark_conversation_seen_def [of ?m] Let_def)
    also have "?m = assign_seen s viewer ?key (int (length (conv_get s ?key)))"
      by (simp add: mark_conversation_seen_def Let_def)
    finally show ?thesis
      by (simp add: assign_seen_idem mark_conversation_seen_def Let_def)
  qed
  have u: "fst (unread_count ?m viewer partner) = 0"
    by (simp add: unread_count_fst m)
  show ?thesis using m twice u by simp
qed

text \<open>
  Claim C8. In every reachable state every seen mark is at least 0 and at most the length
  of its log, and no step from a reachable state makes a seen mark smaller.
\<close>

theorem seen_mark_invariant:
  assumes "reachable s"
  shows "0 \<le> seen_mark s viewer key \<and>
         seen_mark s viewer key \<le> int (length (conv_get s key)) \<and>
         (\<forall>s'. step s s' \<longrightarrow> seen_mark s viewer key \<le> seen_mark s' viewer key)"
proof -
  have inv: "seen_inv s" using assms by (rule reachable_seen_inv)
  have "seen_mark s viewer key \<le> seen_mark s' viewer key" if "step s s'" for s'
    using inv step_advances [OF that] by (rule seen_mark_advances)
  then show ?thesis using seen_invD [OF inv, of viewer key] by blast
qed

theorem seen_mark_invariant_witness:
  "reachable after_hello \<and> step after_hello after_bob_read \<and>
   seen_mark after_hello ''bob'' (''alice'', ''bob'') = 0 \<and>
   seen_mark after_bob_read ''bob'' (''alice'', ''bob'') = 1 \<and>
   0 \<le> seen_mark after_hello ''bob'' (''alice'', ''bob'') \<and>
   seen_mark after_hello ''bob'' (''alice'', ''bob'') \<le>
     int (length (conv_get after_hello (''alice'', ''bob''))) \<and>
   seen_mark after_hello ''bob'' (''alice'', ''bob'') \<le>
     seen_mark after_bob_read ''bob'' (''alice'', ''bob'')"
proof -
  have st: "step after_hello after_bob_read"
    using bob_reads_hello by (rule step_serialize)
  have a: "seen_mark after_hello ''bob'' (''alice'', ''bob'') = 0" by code_simp
  have b: "seen_mark after_bob_read ''bob'' (''alice'', ''bob'') = 1" by code_simp
  from seen_mark_invariant [OF reachable_after_hello, of "''bob''" "(''alice'', ''bob'')"]
    reachable_after_hello st a b
  show ?thesis by blast
qed

text \<open>
  Claim C9. \<open>build_dashboard_payload\<close> always returns a payload (the function has no
  branch that raises), and the state it leaves has the same \<open>users\<close>, the same
  \<open>conversations\<close> and the same seen mark for every viewer and key. The only thing it
  can change goes through \<open>ensure_user_seen\<close>: a viewer with no dictionary in
  \<open>user_seen\<close> gets an empty one, which holds no mark.
\<close>

theorem dashboard_read_only:
  "users (snd (build_dashboard_payload s user query)) = users s \<and>
   conversations (snd (build_dashboard_payload s user query)) = conversations s \<and>
   conv_get (snd (build_dashboard_payload s user query)) key = conv_get s key \<and>
   seen_mark (snd (build_dashboard_payload s user query)) viewer key = seen_mark s viewer key"
  using payload_frame [of s user query viewer key] by (simp add: conv_get_def)

text \<open>
  Claim C10. \<open>serialize_messages\<close> reads \<open>users[partner_key]\<close> before it looks at any
  message, so for a partner id that is not registered it raises \<open>KeyError\<close>, whatever the
  log holds, also when it is empty. When the partner and the sender of every message in
  the log are registered, it returns.
\<close>

theorem serialize_requires_partner:
  "(map_of (users s) partner_key = None \<longrightarrow>
      serialize_messages s viewer partner_key mark_seen = Inl (KeyError partner_key)) \<and>
   (dict_mem partner_key (users s) \<and>
    (\<forall>e \<in> set (conv_get s (conversation_key viewer partner_key)).
       dict_mem (sender e) (users s)) \<longrightarrow>
    (\<exists>vs s'. serialize_messages s viewer partner_key mark_seen = Inr (vs, s')))"
proof (intro conjI impI)
  assume "map_of (users s) partner_key = None"
  then show "serialize_messages s viewer partner_key mark_seen = Inl (KeyError partner_key)"
    by (simp add: serialize_messages_def dict_item_def Let_def)
next
  let ?log = "conv_get s (conversation_key viewer partner_key)"
  assume a: "dict_mem partner_key (users s) \<and> (\<forall>e \<in> set ?log. dict_mem (sender e) (users s))"
  then obtain partner_data where pd: "dict_item (users s) partner_key = Inr partner_data"
    by (auto simp: dict_mem_def dict_item_def)
  from a have "\<forall>e \<in> set ?log. sender e = viewer \<or> dict_mem (sender e) (users s)" by blast
  from serialize_loop_succeeds [OF this, of partner_data "[]"]
  obtain vs where "serialize_loop (users s) viewer partner_data ?log [] = Inr vs" by blast
  then show "\<exists>vs s'. serialize_messages s viewer partner_key mark_seen = Inr (vs, s')"
    by (simp add: serialize_messages_def Let_def pd)
qed

theorem serialize_requires_partner_witness:
  "map_of (users logged_in) ''carol'' = None \<and>
   conv_get logged_in (conversation_key ''alice'' ''carol'') = [] \<and>
   serialize_messages logged_in ''alice'' ''carol'' False = Inl (KeyError ''carol'') \<and>
   dict_mem ''alice'' (users after_hello) \<and>
   conv_get after_hello (conversation_key ''bob'' ''alice'') = [hello] \<and>
   dict_mem (sender hello) (users after_hello) \<and>
   (\<exists>vs s'. serialize_messages after_hello ''bob'' ''alice'' True = Inr (vs, s'))"
proof -
  have 1: "map_of (users logged_in) ''carol'' = None" by code_simp
  have 2: "conv_get logged_in (conversation_key ''alice'' ''carol'') = []" by code_simp
  have 3: "dict_mem ''alice'' (users after_hello)" by code_simp
  have 4: "conv_get after_hello (conversation_key ''bob'' ''alice'') = [hello]" by code_simp
  have 5: "dict_mem (sender hello) (users after_hello)" by code_simp
  from serialize_requires_partner [of logged_in "''carol''" "''alice''" False]
    serialize_requires_partner [of after_hello "''alice''" "''bob''" True] 1 2 3 4 5
  show ?thesis by simp
qed

end
